theory Spec2Isabelle
  imports Main
begin

section \<open>Python strings\<close>

text \<open>
  Text is modelled as the \<^verbatim>\<open>str\<close> the file object hands to the program, after
  decoding and newline translation: a list of characters, each a code point below 256.
  The numbers of the program are \<^verbatim>\<open>float64\<close> values; their type is left open
  (a type variable \<open>'v\<close>), and the three library operations on them that the program
  calls are parameters of the model: \<open>pfloat\<close> for \<^verbatim>\<open>float(s)\<close> (\<open>None\<close> when it
  raises \<^verbatim>\<open>ValueError\<close>), \<open>fmt\<close> for the format \<^verbatim>\<open>:.5f\<close>, and the
  comparison and product of the type for \<^verbatim>\<open>>=\<close>, \<^verbatim>\<open><=\<close> and \<^verbatim>\<open>*=\<close>.
  Every theorem below holds for all such parameters.
\<close>

abbreviation NL :: char where
  "NL \<equiv> CHR 0x0A"

text \<open>\<^verbatim>\<open>str.isspace\<close> on the code points below 256.\<close>

definition isspace :: "char \<Rightarrow> bool" where
  "isspace c =
     (c = CHR 0x09 \<or> c = NL \<or> c = CHR 0x0B \<or> c = CHR 0x0C \<or> c = CHR 0x0D \<or>
      c = CHR 0x1C \<or> c = CHR 0x1D \<or> c = CHR 0x1E \<or> c = CHR 0x1F \<or> c = CHR 0x20 \<or>
      c = CHR 0x85 \<or> c = CHR 0xA0)"

text \<open>
  \<^verbatim>\<open>for line in file\<close>: the lines of a text, each with its terminating newline; only
  the last line can lack one.
\<close>

fun file_lines :: "string \<Rightarrow> string list" where
  "file_lines [] = []"
| "file_lines (c # cs) =
     (if c = NL then [c] # file_lines cs
      else (case file_lines cs of
              [] \<Rightarrow> [[c]]
            | l # ls \<Rightarrow> (c # l) # ls))"

text \<open>\<^verbatim>\<open>s.strip()\<close>.\<close>

definition py_strip :: "string \<Rightarrow> string" where
  "py_strip s = rev (dropWhile isspace (rev (dropWhile isspace s)))"

text \<open>
  \<^verbatim>\<open>s.split()\<close>: the maximal runs of characters that are not whitespace. The second
  argument of \<open>split_acc\<close> is the run read so far.
\<close>

fun split_acc :: "string \<Rightarrow> string \<Rightarrow> string list" where
  "split_acc [] cur = (if cur = [] then [] else [cur])"
| "split_acc (c # cs) cur =
     (if isspace c then (if cur = [] then split_acc cs [] else cur # split_acc cs [])
      else split_acc cs (cur @ [c]))"

definition py_split :: "string \<Rightarrow> string list" where
  "py_split s = split_acc s []"

text \<open>\<^verbatim>\<open>s.startswith(p)\<close> and \<^verbatim>\<open>p in s\<close>.\<close>

fun startswith :: "string \<Rightarrow> string \<Rightarrow> bool" where
  "startswith s [] = True"
| "startswith [] (p # ps) = False"
| "startswith (c # cs) (p # ps) = (c = p \<and> startswith cs ps)"

fun py_in :: "string \<Rightarrow> string \<Rightarrow> bool" where
  "py_in p [] = (p = [])"
| "py_in p (c # cs) = (startswith (c # cs) p \<or> py_in p cs)"

text \<open>\<^verbatim>\<open>sep.join(parts)\<close>.\<close>

fun py_join :: "string \<Rightarrow> string list \<Rightarrow> string" where
  "py_join sep [] = []"
| "py_join sep [p] = p"
| "py_join sep (p # q # ps) = p @ sep @ py_join sep (q # ps)"

section \<open>Records\<close>

text \<open>
  A row \<^verbatim>\<open>[x, y, e]\<close> of the array of shape (N, 3) that the functions pass around.
\<close>

type_synonym 'v row = "'v \<times> 'v \<times> 'v"

fun col0 :: "'v row \<Rightarrow> 'v" where
  "col0 (x, y, e) = x"

fun col1 :: "'v row \<Rightarrow> 'v" where
  "col1 (x, y, e) = y"

fun col2 :: "'v row \<Rightarrow> 'v" where
  "col2 (x, y, e) = e"

datatype error = ValueError | IndexError

section \<open>parse_gcode\<close>

text \<open>
  The loop over the parts of one line (lines 19 to 25): \<^verbatim>\<open>x\<close>, \<^verbatim>\<open>y\<close> and
  \<^verbatim>\<open>e\<close> start as \<^verbatim>\<open>None\<close>; a part that starts with a marker sets its variable to
  \<^verbatim>\<open>float(part[1:])\<close>, which raises \<^verbatim>\<open>ValueError\<close> on a remainder that is no number.
\<close>

fun scan_parts ::
  "(string \<Rightarrow> 'v option) \<Rightarrow> string list \<Rightarrow> 'v option \<times> 'v option \<times> 'v option
     \<Rightarrow> error + ('v option \<times> 'v option \<times> 'v option)" where
  "scan_parts pfloat [] xye = Inr xye"
| "scan_parts pfloat (part # parts) (x, y, e) =
     (if startswith part ''X'' then
        (case pfloat (tl part) of
           None \<Rightarrow> Inl ValueError
         | Some v \<Rightarrow> scan_parts pfloat parts (Some v, y, e))
      else if startswith part ''Y'' then
        (case pfloat (tl part) of
           None \<Rightarrow> Inl ValueError
         | Some v \<Rightarrow> scan_parts pfloat parts (x, Some v, e))
      else if startswith part ''E'' then
        (case pfloat (tl part) of
           None \<Rightarrow> Inl ValueError
         | Some v \<Rightarrow> scan_parts pfloat parts (x, y, Some v))
      else scan_parts pfloat parts (x, y, e))"

text \<open>
  The body of the loop over the lines (lines 16 to 27): the rows the line appends to
  \<^verbatim>\<open>gcode_data\<close>, none or one.
\<close>

definition parse_line :: "(string \<Rightarrow> 'v option) \<Rightarrow> string \<Rightarrow> error + 'v row list" where
  "parse_line pfloat line =
     (if py_in ''G1'' line then
        (case scan_parts pfloat (py_split (py_strip line)) (None, None, None) of
           Inl err \<Rightarrow> Inl err
         | Inr (x, y, e) \<Rightarrow>
             (case x of
                None \<Rightarrow> Inr []
              | Some xv \<Rightarrow>
                  (case y of
                     None \<Rightarrow> Inr []
                   | Some yv \<Rightarrow>
                       (case e of
                          None \<Rightarrow> Inr []
                        | Some ev \<Rightarrow> Inr [(xv, yv, ev)]))))
      else Inr [])"

fun parse_lines ::
  "(string \<Rightarrow> 'v option) \<Rightarrow> string list \<Rightarrow> 'v row list \<Rightarrow> error + 'v row list" where
  "parse_lines pfloat [] gcode_data = Inr gcode_data"
| "parse_lines pfloat (line # rest) gcode_data =
     (case parse_line pfloat line of
        Inl err \<Rightarrow> Inl err
      | Inr rows \<Rightarrow> parse_lines pfloat rest (gcode_data @ rows))"

definition parse_gcode :: "(string \<Rightarrow> 'v option) \<Rightarrow> string \<Rightarrow> error + 'v row list" where
  "parse_gcode pfloat text = parse_lines pfloat (file_lines text) []"

section \<open>write_gcode\<close>

text \<open>
  The loop over the parts of a line with the tag (lines 46 to 54), with the cursor
  \<^verbatim>\<open>gcode_index\<close> and the list \<^verbatim>\<open>new_line\<close> as its state.
\<close>

fun rewrite_parts ::
  "('v \<Rightarrow> string) \<Rightarrow> 'v row list \<Rightarrow> string list \<Rightarrow> nat \<Rightarrow> string list
     \<Rightarrow> string list \<times> nat" where
  "rewrite_parts fmt gcode_data [] gcode_index new_line = (new_line, gcode_index)"
| "rewrite_parts fmt gcode_data (part # parts) gcode_index new_line =
     (if startswith part ''E'' then
        (if gcode_index < length gcode_data then
           rewrite_parts fmt gcode_data parts (gcode_index + 1)
             (new_line @ [''E'' @ fmt (col2 (gcode_data ! gcode_index))])
         else rewrite_parts fmt gcode_data parts gcode_index (new_line @ [part]))
      else rewrite_parts fmt gcode_data parts gcode_index (new_line @ [part]))"

text \<open>
  The loop over the lines (lines 41 to 58): the strings written, one per line, and the
  cursor after the last line.
\<close>

fun write_lines ::
  "('v \<Rightarrow> string) \<Rightarrow> 'v row list \<Rightarrow> string list \<Rightarrow> nat \<Rightarrow> string list
     \<Rightarrow> string list \<times> nat" where
  "write_lines fmt gcode_data [] gcode_index written = (written, gcode_index)"
| "write_lines fmt gcode_data (line # rest) gcode_index written =
     (if py_in ''G1'' line then
        (case rewrite_parts fmt gcode_data (py_split (py_strip line)) gcode_index [] of
           (new_line, gcode_index') \<Rightarrow>
             write_lines fmt gcode_data rest gcode_index'
               (written @ [py_join '' '' new_line @ [NL]]))
      else write_lines fmt gcode_data rest gcode_index (written @ [line]))"

text \<open>
  \<open>write_gcode fmt original gcode_data\<close> is the content of the output file, for the
  content \<open>original\<close> of the original file.
\<close>

definition write_gcode :: "('v \<Rightarrow> string) \<Rightarrow> string \<Rightarrow> 'v row list \<Rightarrow> string" where
  "write_gcode fmt original gcode_data =
     concat (fst (write_lines fmt gcode_data (file_lines original) 0 []))"

section \<open>adjust_extrusion\<close>

text \<open>
  Arrays are objects: a store maps each address to the rows of the array there. The mask
  of line 78 and the masked product of line 81 work on the array at the address the
  function is given, and the function returns that address.
\<close>

type_synonym addr = nat

type_synonym 'v store = "addr \<Rightarrow> 'v row list"

definition region_mask :: "('v::ord) row list \<Rightarrow> 'v \<times> 'v \<Rightarrow> 'v \<times> 'v \<Rightarrow> bool list" where
  "region_mask rows x_range y_range =
     (case x_range of (x_min, x_max) \<Rightarrow>
      case y_range of (y_min, y_max) \<Rightarrow>
        map (\<lambda>r. col0 r \<ge> x_min \<and> col0 r \<le> x_max \<and> col1 r \<ge> y_min \<and> col1 r \<le> y_max) rows)"

definition scale_masked :: "('v::times) row list \<Rightarrow> bool list \<Rightarrow> 'v \<Rightarrow> 'v row list" where
  "scale_masked rows msk target_ratio =
     map (\<lambda>(r, m). if m then (col0 r, col1 r, col2 r * target_ratio) else r) (zip rows msk)"

definition adjust_extrusion ::
  "('v::{ord,times}) store \<Rightarrow> addr \<Rightarrow> 'v \<times> 'v \<Rightarrow> 'v \<times> 'v \<Rightarrow> 'v \<Rightarrow> 'v store \<times> addr" where
  "adjust_extrusion h gcode x_range y_range target_ratio =
     (let msk = region_mask (h gcode) x_range y_range
      in (h(gcode := scale_masked (h gcode) msk target_ratio), gcode))"

section \<open>The session\<close>

text \<open>
  The global variables of the script, and the one property of the confirm button that
  the callbacks set: whether it is active. \<^verbatim>\<open>x_range\<close> and \<^verbatim>\<open>y_range\<close> are
  unbound until \<^verbatim>\<open>on_select\<close> first runs.
\<close>

record 'v session =
  heap :: "'v store"
  gcode_data :: addr
  selected_areas :: "(('v \<times> 'v) \<times> ('v \<times> 'v)) list"
  extrusion_multipliers :: "'v list"
  x_range :: "('v \<times> 'v) option"
  y_range :: "('v \<times> 'v) option"
  confirm_active :: bool

text \<open>\<^verbatim>\<open>min(a, b)\<close> and \<^verbatim>\<open>max(a, b)\<close>: the first argument unless the second beats it.\<close>

definition py_min :: "('v::ord) \<Rightarrow> 'v \<Rightarrow> 'v" where
  "py_min a b = (if b < a then b else a)"

definition py_max :: "('v::ord) \<Rightarrow> 'v \<Rightarrow> 'v" where
  "py_max a b = (if b > a then b else a)"

text \<open>
  \<^verbatim>\<open>on_select(eclick, erelease)\<close>, each event given by its \<^verbatim>\<open>(xdata, ydata)\<close>.
\<close>

definition on_select :: "('v::ord) \<times> 'v \<Rightarrow> 'v \<times> 'v \<Rightarrow> 'v session \<Rightarrow> 'v session" where
  "on_select eclick erelease s =
     (case eclick of (x1, y1) \<Rightarrow>
      case erelease of (x2, y2) \<Rightarrow>
        s\<lparr>x_range := Some (py_min x1 x2, py_max x1 x2),
          y_range := Some (py_min y1 y2, py_max y1 y2),
          confirm_active := True\<rparr>)"

text \<open>
  \<^verbatim>\<open>confirm_selection(event)\<close>, with the text that \<^verbatim>\<open>input\<close> returns as an argument.
  The button is deactivated first (line 121). \<^verbatim>\<open>float\<close> raising \<^verbatim>\<open>ValueError\<close>
  and the unbound \<^verbatim>\<open>x_range\<close> raising \<^verbatim>\<open>NameError\<close> (line 131, before anything
  is appended) both end in a handler that only prints.
\<close>

definition confirm_selection ::
  "(string \<Rightarrow> ('v::{ord,times}) option) \<Rightarrow> string \<Rightarrow> 'v session \<Rightarrow> 'v session" where
  "confirm_selection pfloat ratio_text s0 =
     (let s = s0\<lparr>confirm_active := False\<rparr> in
      case pfloat ratio_text of
        None \<Rightarrow> s
      | Some target_ratio \<Rightarrow>
          (case x_range s of
             None \<Rightarrow> s
           | Some xr \<Rightarrow>
               (case y_range s of
                  None \<Rightarrow> s
                | Some yr \<Rightarrow>
                    (let s1 = s\<lparr>selected_areas := selected_areas s @ [(xr, yr)],
                               extrusion_multipliers := extrusion_multipliers s @ [target_ratio]\<rparr>
                     in case adjust_extrusion (heap s1) (gcode_data s1) xr yr target_ratio of
                          (h', a) \<Rightarrow> s1\<lparr>heap := h', gcode_data := a\<rparr>))))"

section \<open>The script\<close>

text \<open>
  What happens while \<^verbatim>\<open>plt.show()\<close> runs is a list of events: a rectangle drawn, or
  a click on the confirm button together with the text then typed at the prompt. A
  button that is not active ignores the click.
\<close>

datatype 'v gui_event = Select "'v \<times> 'v" "'v \<times> 'v" | Click string

fun gui_step ::
  "(string \<Rightarrow> ('v::{ord,times}) option) \<Rightarrow> 'v session \<Rightarrow> 'v gui_event \<Rightarrow> 'v session" where
  "gui_step pfloat s (Select eclick erelease) = on_select eclick erelease s"
| "gui_step pfloat s (Click ratio_text) =
     (if confirm_active s then confirm_selection pfloat ratio_text s else s)"

text \<open>
  The main script: the content of \<^verbatim>\<open>output.gcode\<close> for the content \<open>input_text\<close> of
  \<^verbatim>\<open>input.gcode\<close>, or the exception that ends the script before the file is written.
  \<^verbatim>\<open>np.array([])\<close> has one dimension, so that with no row the index
  \<^verbatim>\<open>downsampled_data[:, 0]\<close> of line 173 raises \<^verbatim>\<open>IndexError\<close>.
\<close>

definition init_session :: "'v row list \<Rightarrow> 'v session" where
  "init_session rows =
     \<lparr>heap = (\<lambda>a. [])(0 := rows), gcode_data = 0, selected_areas = [],
      extrusion_multipliers = [], x_range = None, y_range = None, confirm_active = False\<rparr>"

definition main_script ::
  "(string \<Rightarrow> ('v::{ord,times}) option) \<Rightarrow> ('v \<Rightarrow> string) \<Rightarrow> string \<Rightarrow> 'v gui_event list
     \<Rightarrow> error + string" where
  "main_script pfloat fmt input_text events =
     (case parse_gcode pfloat input_text of
        Inl err \<Rightarrow> Inl err
      | Inr rows \<Rightarrow>
          if rows = [] then Inl IndexError
          else (let s = foldl (gui_step pfloat) (init_session rows) events
                in Inr (write_gcode fmt input_text (heap s (gcode_data s)))))"

section \<open>An instance for evaluation\<close>

text \<open>
  To run the model, the numbers are taken to be integers: \<open>int_float\<close> reads an
  optional minus sign and decimal digits, and \<open>int_fmt\<close> writes the digits and five
  zeros after the point, as \<^verbatim>\<open>float\<close> and \<^verbatim>\<open>:.5f\<close> do on such numerals.
\<close>

fun digits_value :: "string \<Rightarrow> nat \<Rightarrow> nat option" where
  "digits_value [] n = Some n"
| "digits_value (c # cs) n =
     (if (of_char (CHR ''0'') :: nat) \<le> of_char c \<and> (of_char c :: nat) \<le> of_char (CHR ''9'')
      then digits_value cs (10 * n + (of_char c - of_char (CHR ''0'')))
      else None)"

definition int_float :: "string \<Rightarrow> int option" where
  "int_float s =
     (case s of
        [] \<Rightarrow> None
      | c # cs \<Rightarrow>
          if c = CHR ''-'' then (if cs = [] then None else map_option (\<lambda>n. - int n) (digits_value cs 0))
          else map_option int (digits_value s 0))"

function nat_digits :: "nat \<Rightarrow> string" where
  "nat_digits n =
     (if n < 10 then [''0123456789'' ! n]
      else nat_digits (n div 10) @ [''0123456789'' ! (n mod 10)])"
  by pat_completeness auto
termination
  by (relation "measure id") auto

declare nat_digits.simps [simp del]

definition int_fmt :: "int \<Rightarrow> string" where
  "int_fmt i =
     (if i < 0 then ''-'' else []) @ nat_digits (nat \<bar>i\<bar>) @ ''.00000''"

section \<open>Notions used in the statements\<close>

text \<open>
  The number of parts that start with the deposition marker, in a list of parts and on a
  line (none on a line without the tag, which the rewriter copies).
\<close>

definition dep_count :: "string list \<Rightarrow> nat" where
  "dep_count parts = length (filter (\<lambda>part. startswith part ''E'') parts)"

definition dep_parts :: "string \<Rightarrow> nat" where
  "dep_parts line = (if py_in ''G1'' line then dep_count (py_split (py_strip line)) else 0)"

text \<open>
  What the rewriter writes for a part when \<open>q\<close> parts with the marker came before it in
  the file: the formatted deposition of row \<open>q\<close> if the part has the marker and the row
  exists, the part itself otherwise.
\<close>

definition emitted :: "('v \<Rightarrow> string) \<Rightarrow> 'v row list \<Rightarrow> nat \<Rightarrow> string \<Rightarrow> string" where
  "emitted fmt rows q part =
     (if startswith part ''E'' \<and> q < length rows then ''E'' @ fmt (col2 (rows ! q)) else part)"

text \<open>
  The string the rewriter writes for a line when the cursor stands at \<open>i\<close> (lines 42 to
  58).
\<close>

definition chunk :: "('v \<Rightarrow> string) \<Rightarrow> 'v row list \<Rightarrow> nat \<Rightarrow> string \<Rightarrow> string" where
  "chunk fmt g i l =
     (if py_in ''G1'' l
      then py_join '' '' (fst (rewrite_parts fmt g (py_split (py_strip l)) i [])) @ [NL]
      else l)"

text \<open>
  A list of strings that are the lines of their concatenation: none is empty, a newline
  stands only at the end of a string, and every string but the last ends with one.
\<close>

fun well_lines :: "string list \<Rightarrow> bool" where
  "well_lines [] = True"
| "well_lines [l] = (l \<noteq> [] \<and> NL \<notin> set (butlast l))"
| "well_lines (l # m # ls) =
     (l \<noteq> [] \<and> NL \<notin> set (butlast l) \<and> last l = NL \<and> well_lines (m # ls))"

section \<open>The region transform\<close>

lemma length_scale_masked:
  "length (scale_masked rows (region_mask rows xr yr) t) = length rows"
  by (cases xr; cases yr) (simp add: scale_masked_def region_mask_def)

lemma nth_scale_masked:
  "i < length rows \<Longrightarrow>
   scale_masked rows (region_mask rows (x_min, x_max) (y_min, y_max)) t ! i =
     (if x_min \<le> col0 (rows ! i) \<and> col0 (rows ! i) \<le> x_max \<and>
         y_min \<le> col1 (rows ! i) \<and> col1 (rows ! i) \<le> y_max
      then (col0 (rows ! i), col1 (rows ! i), col2 (rows ! i) * t)
      else rows ! i)"
  by (simp add: scale_masked_def region_mask_def)

lemma adjust_extrusion_eq:
  "adjust_extrusion h a xr yr t = (h(a := scale_masked (h a) (region_mask (h a) xr yr) t), a)"
  by (simp add: adjust_extrusion_def Let_def)

text \<open>
  Claim C4. The transform multiplies the third column of row \<open>i\<close> by the ratio when
  \<open>x_min \<le> x \<le> x_max\<close> and \<open>y_min \<le> y \<le> y_max\<close>, and leaves it as it is otherwise.
  Both bounds count on both axes: a row on \<open>x_min\<close>, \<open>x_max\<close>, \<open>y_min\<close> or \<open>y_max\<close>
  (within the bounds of the other axis) is multiplied, a row strictly beyond any bound is
  not. The order of the numbers is any preorder.
\<close>

theorem adjust_extrusion_region:
  fixes h :: "('v::{preorder,times}) store"
  assumes "adjust_extrusion h a (x_min, x_max) (y_min, y_max) t = (h', a')"
    and "i < length (h a)"
    and "h a ! i = (x, y, e)"
  shows "length (h' a') = length (h a) \<and>
    (x_min \<le> x \<and> x \<le> x_max \<and> y_min \<le> y \<and> y \<le> y_max \<longrightarrow> col2 (h' a' ! i) = e * t) \<and>
    (\<not> (x_min \<le> x \<and> x \<le> x_max \<and> y_min \<le> y \<and> y \<le> y_max) \<longrightarrow> col2 (h' a' ! i) = e) \<and>
    ((x = x_min \<or> x = x_max) \<and> x_min \<le> x_max \<and> y_min \<le> y \<and> y \<le> y_max \<longrightarrow>
       col2 (h' a' ! i) = e * t) \<and>
    ((y = y_min \<or> y = y_max) \<and> y_min \<le> y_max \<and> x_min \<le> x \<and> x \<le> x_max \<longrightarrow>
       col2 (h' a' ! i) = e * t) \<and>
    (x < x_min \<or> x_max < x \<or> y < y_min \<or> y_max < y \<longrightarrow> col2 (h' a' ! i) = e)"
  using assms
  by (auto simp: adjust_extrusion_eq length_scale_masked nth_scale_masked less_le_not_le)

theorem adjust_extrusion_region_witness:
  "adjust_extrusion ((\<lambda>b::addr. [])(0 := [(5, 0, 1), (10, 10, 2 :: int)])) 0 (0, 5) (0, 5) 3 =
     ((\<lambda>b::addr. [])(0 := [(5, 0, 3), (10, 10, 2)]), 0) \<and>
   col2 (((\<lambda>b::addr. [])(0 := [(5, 0, 3), (10, 10, 2)] :: int row list)) 0 ! 0) = 1 * 3 \<and>
   col2 (((\<lambda>b::addr. [])(0 := [(5, 0, 3), (10, 10, 2)] :: int row list)) 0 ! 1) = 2"
proof -
  let ?h = "(\<lambda>b::addr. [])(0 := [(5, 0, 1), (10, 10, 2 :: int)])"
  let ?h' = "(\<lambda>b::addr. [])(0 := [(5, 0, 3), (10, 10, 2 :: int)])"
  have run: "adjust_extrusion ?h 0 (0, 5) (0, 5) 3 = (?h', 0)"
    by (simp add: adjust_extrusion_eq scale_masked_def region_mask_def)
  have i0: "0 < length (?h 0)" and r0: "?h 0 ! 0 = (5, 0, 1)" by simp_all
  have i1: "1 < length (?h 0)" and r1: "?h 0 ! 1 = (10, 10, 2)" by simp_all
  show ?thesis
    using run adjust_extrusion_region [OF run i0 r0] adjust_extrusion_region [OF run i1 r1]
    by simp
qed

text \<open>
  Claim C5. Each application multiplies the value that is stored: for a row inside both
  regions, the transform with \<open>r1\<close> and then with \<open>r2\<close> leaves \<open>(e * r1) * r2\<close>, the
  products taken in this order. The same operation twice multiplies twice, so the
  transform is not idempotent: from \<open>1\<close>, the ratio \<open>2\<close> gives \<open>2\<close> once and \<open>4\<close> twice.
\<close>

theorem adjust_extrusion_compounds:
  fixes h :: "('v::{preorder,times}) store"
  assumes "adjust_extrusion h a (x_min1, x_max1) (y_min1, y_max1) r1 = (h1, a1)"
    and "adjust_extrusion h1 a1 (x_min2, x_max2) (y_min2, y_max2) r2 = (h2, a2)"
    and "i < length (h a)"
    and "h a ! i = (x, y, e)"
    and "x_min1 \<le> x \<and> x \<le> x_max1 \<and> y_min1 \<le> y \<and> y \<le> y_max1"
    and "x_min2 \<le> x \<and> x \<le> x_max2 \<and> y_min2 \<le> y \<and> y \<le> y_max2"
  shows "h1 a1 ! i = (x, y, e * r1) \<and> h2 a2 ! i = (x, y, (e * r1) * r2) \<and>
    fst (adjust_extrusion (fst (adjust_extrusion ((\<lambda>b::addr. [])(0 := [(0, 0, 1 :: int)])) 0
           (0, 5) (0, 5) 2)) 0 (0, 5) (0, 5) 2) 0 = [(0, 0, 4)] \<and>
    fst (adjust_extrusion ((\<lambda>b::addr. [])(0 := [(0, 0, 1 :: int)])) 0 (0, 5) (0, 5) 2) 0 = [(0, 0, 2)]"
proof -
  have "h1 a1 ! i = (x, y, e * r1) \<and> h2 a2 ! i = (x, y, (e * r1) * r2)"
    using assms
    by (auto simp: adjust_extrusion_eq length_scale_masked nth_scale_masked)
  then show ?thesis
    by (simp add: adjust_extrusion_eq scale_masked_def region_mask_def)
qed

theorem adjust_extrusion_compounds_witness:
  "adjust_extrusion ((\<lambda>b::addr. [])(0 := [(1, 1, 7 :: int)])) 0 (0, 5) (0, 5) 2 =
     ((\<lambda>b::addr. [])(0 := [(1, 1, 14)]), 0) \<and>
   adjust_extrusion ((\<lambda>b::addr. [])(0 := [(1, 1, 14 :: int)])) 0 (1, 9) (1, 9) 3 =
     ((\<lambda>b::addr. [])(0 := [(1, 1, 42)]), 0) \<and>
   ((\<lambda>b::addr. [])(0 := [(1, 1, 42)] :: int row list)) 0 ! 0 = (1, 1, (7 * 2) * 3)"
proof -
  let ?h = "(\<lambda>b::addr. [])(0 := [(1, 1, 7 :: int)])"
  let ?h1 = "(\<lambda>b::addr. [])(0 := [(1, 1, 14 :: int)])"
  let ?h2 = "(\<lambda>b::addr. [])(0 := [(1, 1, 42 :: int)])"
  have run1: "adjust_extrusion ?h 0 (0, 5) (0, 5) 2 = (?h1, 0)"
    by (simp add: adjust_extrusion_eq scale_masked_def region_mask_def)
  have run2: "adjust_extrusion ?h1 0 (1, 9) (1, 9) 3 = (?h2, 0)"
    by (simp add: adjust_extrusion_eq scale_masked_def region_mask_def)
  have i0: "0 < length (?h 0)" and r0: "?h 0 ! 0 = (1, 1, 7)" by simp_all
  have in1: "(0::int) \<le> 1 \<and> (1::int) \<le> 5 \<and> (0::int) \<le> 1 \<and> (1::int) \<le> 5" by simp
  have in2: "(1::int) \<le> 1 \<and> (1::int) \<le> 9 \<and> (1::int) \<le> 1 \<and> (1::int) \<le> 9" by simp
  show ?thesis
    using run1 run2 adjust_extrusion_compounds [OF run1 run2 i0 r0 in1 in2]
    by simp
qed

text \<open>
  Claim C8. The transform returns the address it was given, and in the store only the
  array at that address changes; there, the number of rows and the first two columns of
  every row stay, and a row outside the region stays in all three columns.
\<close>

theorem adjust_extrusion_frame:
  fixes h :: "('v::{ord,times}) store"
  assumes "adjust_extrusion h a (x_min, x_max) (y_min, y_max) t = (h', a')"
  shows "a' = a \<and> (\<forall>b. b \<noteq> a \<longrightarrow> h' b = h b) \<and> length (h' a) = length (h a) \<and>
    (\<forall>i < length (h a).
       col0 (h' a ! i) = col0 (h a ! i) \<and> col1 (h' a ! i) = col1 (h a ! i) \<and>
       (\<not> (x_min \<le> col0 (h a ! i) \<and> col0 (h a ! i) \<le> x_max \<and>
           y_min \<le> col1 (h a ! i) \<and> col1 (h a ! i) \<le> y_max) \<longrightarrow> h' a ! i = h a ! i))"
  using assms
  by (auto simp: adjust_extrusion_eq length_scale_masked nth_scale_masked)

theorem adjust_extrusion_frame_witness:
  "adjust_extrusion
     ((\<lambda>b::addr. [])(0 := [(5, 0, 1), (10, 10, 2)] :: int row list, 1 := [(0, 0, 9)])) 0
     (0, 5) (0, 5) 3 =
     ((\<lambda>b::addr. [])(0 := [(5, 0, 3), (10, 10, 2)], 1 := [(0, 0, 9)]), 0) \<and>
   ((\<lambda>b::addr. [])(0 := [(5, 0, 3), (10, 10, 2)] :: int row list, 1 := [(0, 0, 9)])) 1 =
     [(0, 0, 9)] \<and>
   ((\<lambda>b::addr. [])(0 := [(5, 0, 3), (10, 10, 2)] :: int row list, 1 := [(0, 0, 9)])) 0 ! 1 =
     (10, 10, 2)"
proof -
  let ?h = "(\<lambda>b::addr. [])(0 := [(5, 0, 1), (10, 10, 2)] :: int row list, 1 := [(0, 0, 9)])"
  let ?h' = "(\<lambda>b::addr. [])(0 := [(5, 0, 3), (10, 10, 2)] :: int row list, 1 := [(0, 0, 9)])"
  have run: "adjust_extrusion ?h 0 (0, 5) (0, 5) 3 = (?h', 0)"
    by (simp add: adjust_extrusion_eq scale_masked_def region_mask_def fun_upd_twist)
  show ?thesis
    using run adjust_extrusion_frame [OF run]
    by simp
qed

section \<open>The extractor\<close>

lemma startswith_single: "startswith t [c] \<longleftrightarrow> t \<noteq> [] \<and> hd t = c"
  by (cases t) auto

lemma scan_parts_error:
  "scan_parts pf parts st = Inl err \<Longrightarrow> err = ValueError"
  by (induction pf parts st rule: scan_parts.induct) (auto split: if_splits option.splits)

lemma scan_parts_Inl_iff:
  "(\<exists>err. scan_parts pf parts st = Inl err) \<longleftrightarrow>
   (\<exists>t \<in> set parts. (startswith t ''X'' \<or> startswith t ''Y'' \<or> startswith t ''E'') \<and>
      pf (tl t) = None)"
  by (induction pf parts st rule: scan_parts.induct) (auto split: if_splits option.splits)

lemma scan_parts_Inr:
  "scan_parts pf parts (x, y, e) = Inr (x', y', e') \<Longrightarrow>
   (x' \<noteq> None \<longleftrightarrow> x \<noteq> None \<or> (\<exists>t \<in> set parts. startswith t ''X'')) \<and>
   (y' \<noteq> None \<longleftrightarrow> y \<noteq> None \<or> (\<exists>t \<in> set parts. startswith t ''Y'')) \<and>
   (e' \<noteq> None \<longleftrightarrow> e \<noteq> None \<or> (\<exists>t \<in> set parts. startswith t ''E''))"
  by (induction pf parts "(x, y, e)" arbitrary: x y e rule: scan_parts.induct)
     (auto split: if_splits option.splits simp: startswith_single)

lemma parse_line_error: "parse_line pf l = Inl err \<Longrightarrow> err = ValueError"
  by (auto simp: parse_line_def split: if_splits sum.splits option.splits dest: scan_parts_error)

lemma parse_line_Inl_iff:
  "parse_line pf l = Inl ValueError \<longleftrightarrow>
   py_in ''G1'' l \<and>
   (\<exists>t \<in> set (py_split (py_strip l)).
      (startswith t ''X'' \<or> startswith t ''Y'' \<or> startswith t ''E'') \<and> pf (tl t) = None)"
proof (cases "py_in ''G1'' l")
  case False
  then show ?thesis by (simp add: parse_line_def)
next
  case True
  have "parse_line pf l = Inl ValueError \<longleftrightarrow>
        (\<exists>err. scan_parts pf (py_split (py_strip l)) (None, None, None) = Inl err)"
    using True
    by (auto simp: parse_line_def split: sum.splits option.splits dest: scan_parts_error)
  then show ?thesis using True by (simp add: scan_parts_Inl_iff)
qed

lemma parse_line_Inr:
  assumes "parse_line pf l = Inr rs"
  shows "length rs \<le> 1 \<and>
    (length rs = 1 \<longleftrightarrow>
       py_in ''G1'' l \<and>
       (\<exists>t \<in> set (py_split (py_strip l)). startswith t ''X'' \<and> pf (tl t) \<noteq> None) \<and>
       (\<exists>t \<in> set (py_split (py_strip l)). startswith t ''Y'' \<and> pf (tl t) \<noteq> None) \<and>
       (\<exists>t \<in> set (py_split (py_strip l)). startswith t ''E'' \<and> pf (tl t) \<noteq> None))"
proof (cases "py_in ''G1'' l")
  case False
  then show ?thesis using assms by (auto simp: parse_line_def)
next
  case True
  let ?ts = "py_split (py_strip l)"
  from assms True obtain x y e where sc: "scan_parts pf ?ts (None, None, None) = Inr (x, y, e)"
    by (auto simp: parse_line_def split: sum.splits)
  have ok: "\<forall>t \<in> set ?ts. (startswith t ''X'' \<or> startswith t ''Y'' \<or> startswith t ''E'') \<longrightarrow>
              pf (tl t) \<noteq> None"
    using scan_parts_Inl_iff [of pf ?ts "(None, None, None)"] sc by auto
  have rs: "rs = (case x of None \<Rightarrow> [] | Some xv \<Rightarrow>
              (case y of None \<Rightarrow> [] | Some yv \<Rightarrow> (case e of None \<Rightarrow> [] | Some ev \<Rightarrow> [(xv, yv, ev)])))"
    using assms True sc by (auto simp: parse_line_def split: option.splits)
  have len: "length rs = 1 \<longleftrightarrow> x \<noteq> None \<and> y \<noteq> None \<and> e \<noteq> None" and le: "length rs \<le> 1"
    by (auto simp: rs split: option.splits)
  from scan_parts_Inr [OF sc] have
    "(x \<noteq> None \<longleftrightarrow> (\<exists>t \<in> set ?ts. startswith t ''X''))"
    "(y \<noteq> None \<longleftrightarrow> (\<exists>t \<in> set ?ts. startswith t ''Y''))"
    "(e \<noteq> None \<longleftrightarrow> (\<exists>t \<in> set ?ts. startswith t ''E''))"
    by auto
  with len le ok True show ?thesis by blast
qed

lemma parse_lines_Inr:
  "parse_lines pf ls acc = Inr rows \<Longrightarrow>
   \<exists>rss. map (parse_line pf) ls = map Inr rss \<and> rows = acc @ concat rss"
proof (induction ls arbitrary: acc)
  case Nil
  then show ?case by simp
next
  case (Cons l ls)
  from Cons.prems obtain rs where l: "parse_line pf l = Inr rs"
    and rest: "parse_lines pf ls (acc @ rs) = Inr rows"
    by (auto split: sum.splits)
  from Cons.IH [OF rest] obtain rss where
    "map (parse_line pf) ls = map Inr rss" "rows = (acc @ rs) @ concat rss" by blast
  then have "map (parse_line pf) (l # ls) = map Inr (rs # rss) \<and> rows = acc @ concat (rs # rss)"
    using l by simp
  then show ?case by blast
qed

lemma parse_lines_Inl:
  "\<exists>l \<in> set ls. parse_line pf l = Inl ValueError \<Longrightarrow> parse_lines pf ls acc = Inl ValueError"
proof (induction ls arbitrary: acc)
  case Nil
  then show ?case by simp
next
  case (Cons l ls)
  show ?case
  proof (cases "parse_line pf l")
    case (Inl err)
    then show ?thesis using parse_line_error [OF Inl] by simp
  next
    case (Inr rs)
    with Cons.prems have "\<exists>l \<in> set ls. parse_line pf l = Inl ValueError" by auto
    from Cons.IH [OF this] show ?thesis using Inr by simp
  qed
qed

text \<open>
  Claim C3. When the extraction returns, its rows are the rows of the lines, in the order
  of the lines; each line gives at most one row, and gives one exactly when it contains
  \<^verbatim>\<open>G1\<close> and has, among its parts, one that starts with \<^verbatim>\<open>X\<close>, one that starts
  with \<^verbatim>\<open>Y\<close> and one that starts with \<^verbatim>\<open>E\<close>, each with a remainder that is a
  number. A line with the tag that lacks one of the three gives no row.
\<close>

theorem parse_gcode_records:
  assumes "parse_gcode pfloat input_text = Inr rows"
  shows "\<exists>rss. map (parse_line pfloat) (file_lines input_text) = map Inr rss \<and>
     rows = concat rss \<and>
     (\<forall>i < length rss.
        length (rss ! i) \<le> 1 \<and>
        (length (rss ! i) = 1 \<longleftrightarrow>
           py_in ''G1'' (file_lines input_text ! i) \<and>
           (\<exists>t \<in> set (py_split (py_strip (file_lines input_text ! i))).
              startswith t ''X'' \<and> pfloat (tl t) \<noteq> None) \<and>
           (\<exists>t \<in> set (py_split (py_strip (file_lines input_text ! i))).
              startswith t ''Y'' \<and> pfloat (tl t) \<noteq> None) \<and>
           (\<exists>t \<in> set (py_split (py_strip (file_lines input_text ! i))).
              startswith t ''E'' \<and> pfloat (tl t) \<noteq> None)))"
proof -
  from parse_lines_Inr [OF assms [unfolded parse_gcode_def]] obtain rss where
    m: "map (parse_line pfloat) (file_lines input_text) = map Inr rss" and r: "rows = concat rss"
    by auto
  have len: "length rss = length (file_lines input_text)"
    using arg_cong [OF m, of length] by simp
  have "\<And>i. i < length rss \<Longrightarrow> parse_line pfloat (file_lines input_text ! i) = Inr (rss ! i)"
  proof -
    fix i assume i: "i < length rss"
    have "map (parse_line pfloat) (file_lines input_text) ! i = map Inr rss ! i"
      by (simp only: m)
    then show "parse_line pfloat (file_lines input_text ! i) = Inr (rss ! i)"
      using i len by simp
  qed
  then show ?thesis using m r parse_line_Inr by blast
qed

theorem parse_gcode_records_witness:
  "parse_gcode int_float
     (''G1 X0 Y0 E1'' @ [NL] @ ''G1 X5 E2'' @ [NL] @ ''M104 S200'' @ [NL] @ ''G1 X10 Y10 E2'' @ [NL]) =
     Inr [(0, 0, 1), (10, 10, 2)] \<and>
   map (parse_line int_float)
     (file_lines
       (''G1 X0 Y0 E1'' @ [NL] @ ''G1 X5 E2'' @ [NL] @ ''M104 S200'' @ [NL] @ ''G1 X10 Y10 E2'' @ [NL])) =
     map Inr [[(0, 0, 1)], [], [], [(10, 10, 2)]]"
proof -
  let ?t = "''G1 X0 Y0 E1'' @ [NL] @ ''G1 X5 E2'' @ [NL] @ ''M104 S200'' @ [NL] @ ''G1 X10 Y10 E2'' @ [NL]"
  have run: "parse_gcode int_float ?t = Inr [(0, 0, 1), (10, 10, 2)]"
    by (simp add: parse_gcode_def parse_line_def py_split_def py_strip_def isspace_def
        int_float_def)
  have ls: "map (parse_line int_float) (file_lines ?t) = map Inr [[(0, 0, 1)], [], [], [(10, 10, 2)]]"
    by (simp add: parse_line_def py_split_def py_strip_def isspace_def int_float_def)
  from parse_gcode_records [OF run] obtain rss where
    "map (parse_line int_float) (file_lines ?t) = map Inr rss" by blast
  with run ls show ?thesis by simp
qed

text \<open>
  Claim C7. A line with the tag and a part that starts with \<^verbatim>\<open>X\<close>, \<^verbatim>\<open>Y\<close> or
  \<^verbatim>\<open>E\<close> whose remainder is no number makes the extraction end in \<^verbatim>\<open>ValueError\<close>:
  it returns no rows, not even those of the lines before, and the script ends with the
  same exception before it writes the output file.
\<close>

theorem parse_gcode_malformed:
  assumes "l \<in> set (file_lines input_text)"
    and "py_in ''G1'' l"
    and "t \<in> set (py_split (py_strip l))"
    and "startswith t ''X'' \<or> startswith t ''Y'' \<or> startswith t ''E''"
    and "pfloat (tl t) = None"
  shows "parse_gcode pfloat input_text = Inl ValueError \<and>
         main_script pfloat fmt input_text events = Inl ValueError"
proof -
  have "parse_line pfloat l = Inl ValueError"
    using assms(2-5) parse_line_Inl_iff [of pfloat l] by blast
  with assms(1) have "parse_gcode pfloat input_text = Inl ValueError"
    unfolding parse_gcode_def by (intro parse_lines_Inl) blast
  then show ?thesis by (simp add: main_script_def)
qed

theorem parse_gcode_malformed_witness:
  "parse_line int_float (''G1 X1 Y1 E1'' @ [NL]) = Inr [(1, 1, 1)] \<and>
   parse_gcode int_float (''G1 X1 Y1 E1'' @ [NL] @ ''G1 Xabc Y2 E3'' @ [NL]) = Inl ValueError \<and>
   main_script int_float int_fmt (''G1 X1 Y1 E1'' @ [NL] @ ''G1 Xabc Y2 E3'' @ [NL]) [] =
     Inl ValueError"
proof -
  let ?t = "''G1 X1 Y1 E1'' @ [NL] @ ''G1 Xabc Y2 E3'' @ [NL]"
  let ?l = "''G1 Xabc Y2 E3'' @ [NL]"
  have h1: "?l \<in> set (file_lines ?t)" by simp
  have h2: "py_in ''G1'' ?l" by simp
  have h3: "''Xabc'' \<in> set (py_split (py_strip ?l))"
    by (simp add: py_split_def py_strip_def isspace_def)
  have h4: "startswith ''Xabc'' ''X'' \<or> startswith ''Xabc'' ''Y'' \<or> startswith ''Xabc'' ''E''"
    by simp
  have h5: "int_float (tl ''Xabc'') = None" by (simp add: int_float_def)
  have first: "parse_line int_float (''G1 X1 Y1 E1'' @ [NL]) = Inr [(1, 1, 1)]"
    by (simp add: parse_line_def py_split_def py_strip_def isspace_def int_float_def)
  show ?thesis
    using first
      parse_gcode_malformed [where pfloat = int_float and t = "''Xabc''" and fmt = int_fmt
        and events = "[]", OF h1 h2 h3 h4 h5]
    by simp
qed

section \<open>Confirmation\<close>

text \<open>
  Claim C2, amended. When \<^verbatim>\<open>float\<close> rejects the text of the ratio, the confirmation
  changes nothing but the button: the arrays, the two lists and the pending region are
  as before, and the confirm button, deactivated before the prompt, stays inactive, so
  that a further click on it is ignored until a region is selected again.
\<close>

theorem confirm_selection_invalid:
  assumes "pfloat ratio_text = None"
  shows "heap (confirm_selection pfloat ratio_text s) = heap s \<and>
    gcode_data (confirm_selection pfloat ratio_text s) = gcode_data s \<and>
    selected_areas (confirm_selection pfloat ratio_text s) = selected_areas s \<and>
    extrusion_multipliers (confirm_selection pfloat ratio_text s) = extrusion_multipliers s \<and>
    x_range (confirm_selection pfloat ratio_text s) = x_range s \<and>
    y_range (confirm_selection pfloat ratio_text s) = y_range s \<and>
    \<not> confirm_active (confirm_selection pfloat ratio_text s) \<and>
    gui_step pfloat (confirm_selection pfloat ratio_text s) (Click retry_text) =
      confirm_selection pfloat ratio_text s \<and>
    confirm_active (on_select eclick erelease (confirm_selection pfloat ratio_text s))"
  using assms by (cases eclick; cases erelease) (simp add: confirm_selection_def on_select_def)

theorem confirm_selection_invalid_witness:
  "int_float ''abc'' = None \<and>
   selected_areas (confirm_selection int_float ''abc''
     (on_select (0, 0) (5, 5) (init_session [(0, 0, 1)]))) = [] \<and>
   heap (confirm_selection int_float ''abc''
     (on_select (0, 0) (5, 5) (init_session [(0, 0, 1)]))) 0 = [(0, 0, 1)]"
proof -
  have h: "int_float ''abc'' = None" by (simp add: int_float_def)
  show ?thesis
    using h
      confirm_selection_invalid [where pfloat = int_float and ratio_text = "''abc''"
        and s = "on_select (0, 0) (5, 5) (init_session [(0, 0, 1)])", OF h]
    by (simp add: on_select_def init_session_def)
qed

text \<open>
  The claim as stated fails: after a region is drawn the button is active; the text
  \<^verbatim>\<open>abc\<close> leaves it inactive, and a click with the valid ratio \<^verbatim>\<open>2\<close> that follows
  changes nothing, where the same click right after the selection multiplies the row.
\<close>

theorem confirm_selection_retry_counterexample:
  "int_float ''abc'' = None \<and>
   confirm_active (on_select (0, 0) (5, 5) (init_session [(0, 0, 1 :: int)])) \<and>
   \<not> confirm_active (confirm_selection int_float ''abc''
        (on_select (0, 0) (5, 5) (init_session [(0, 0, 1)]))) \<and>
   heap (foldl (gui_step int_float) (init_session [(0, 0, 1)])
        [Select (0, 0) (5, 5), Click ''abc'', Click ''2'']) 0 = [(0, 0, 1)] \<and>
   heap (foldl (gui_step int_float) (init_session [(0, 0, 1)])
        [Select (0, 0) (5, 5), Click ''2'']) 0 = [(0, 0, 2)]"
  by (simp add: int_float_def on_select_def init_session_def confirm_selection_def
      adjust_extrusion_eq scale_masked_def region_mask_def py_min_def py_max_def)

section \<open>The rewriter\<close>

lemma rewrite_parts_acc:
  "rewrite_parts fmt g parts i acc =
     (acc @ fst (rewrite_parts fmt g parts i []), snd (rewrite_parts fmt g parts i []))"
proof (induction parts arbitrary: i acc)
  case Nil
  then show ?case by simp
next
  case (Cons p ps)
  show ?case
    using Cons.IH [of "i + 1" "acc @ [''E'' @ fmt (col2 (g ! i))]"]
      Cons.IH [of "i + 1" "[''E'' @ fmt (col2 (g ! i))]"]
      Cons.IH [of i "acc @ [p]"] Cons.IH [of i "[p]"]
    by simp
qed

lemma rewrite_parts_Cons:
  "rewrite_parts fmt g (p # ps) i [] =
     (emitted fmt g i p # fst (rewrite_parts fmt g ps (if startswith p ''E'' \<and> i < length g then i + 1 else i) []),
      snd (rewrite_parts fmt g ps (if startswith p ''E'' \<and> i < length g then i + 1 else i) []))"
  using rewrite_parts_acc [of fmt g ps "i + 1" "[''E'' @ fmt (col2 (g ! i))]"]
    rewrite_parts_acc [of fmt g ps i "[p]"]
  by (simp add: emitted_def)

lemma length_rewrite_parts:
  "length (fst (rewrite_parts fmt g parts i [])) = length parts"
  by (induction parts arbitrary: i) (simp_all add: rewrite_parts_Cons del: rewrite_parts.simps(2))

lemma snd_rewrite_parts:
  "i \<le> length g \<Longrightarrow> snd (rewrite_parts fmt g parts i []) = min (i + dep_count parts) (length g)"
  by (induction parts arbitrary: i)
     (auto simp: rewrite_parts_Cons dep_count_def simp del: rewrite_parts.simps(2))

lemma nth_rewrite_parts:
  "j < length parts \<Longrightarrow> i \<le> length g \<Longrightarrow>
   fst (rewrite_parts fmt g parts i []) ! j = emitted fmt g (i + dep_count (take j parts)) (parts ! j)"
proof (induction parts arbitrary: i j)
  case Nil
  then show ?case by simp
next
  case (Cons p ps)
  show ?case
  proof (cases j)
    case 0
    then show ?thesis by (simp add: rewrite_parts_Cons dep_count_def del: rewrite_parts.simps(2))
  next
    case (Suc j')
    with Cons.prems have j': "j' < length ps" by simp
    show ?thesis
    proof (cases "startswith p ''E''")
      case False
      then show ?thesis using Suc Cons.IH [OF j' Cons.prems(2)]
        by (simp add: rewrite_parts_Cons dep_count_def del: rewrite_parts.simps(2))
    next
      case True
      show ?thesis
      proof (cases "i < length g")
        case True
        then have "i + 1 \<le> length g" by simp
        from Cons.IH [OF j' this] show ?thesis using Suc True \<open>startswith p ''E''\<close>
          by (simp add: rewrite_parts_Cons dep_count_def del: rewrite_parts.simps(2))
      next
        case False
        with Cons.prems have "i = length g" by simp
        then show ?thesis using Suc Cons.IH [OF j' Cons.prems(2)] \<open>startswith p ''E''\<close>
          by (simp add: rewrite_parts_Cons dep_count_def emitted_def del: rewrite_parts.simps(2))
      qed
    qed
  qed
qed

lemma write_lines_acc:
  "write_lines fmt g ls i w =
     (w @ fst (write_lines fmt g ls i []), snd (write_lines fmt g ls i []))"
proof (induction ls arbitrary: i w)
  case Nil
  then show ?case by simp
next
  case (Cons l ls)
  show ?case
  proof (cases "py_in ''G1'' l")
    case False
    then show ?thesis using Cons.IH [of i "w @ [l]"] Cons.IH [of i "[l]"] by simp
  next
    case True
    obtain nl i' where r: "rewrite_parts fmt g (py_split (py_strip l)) i [] = (nl, i')"
      by (cases "rewrite_parts fmt g (py_split (py_strip l)) i []")
    show ?thesis
      using True r Cons.IH [of i' "w @ [py_join '' '' nl @ [NL]]"]
        Cons.IH [of i' "[py_join '' '' nl @ [NL]]"]
      by simp
  qed
qed

lemma write_lines_Cons:
  "write_lines fmt g (l # ls) i [] =
     (chunk fmt g i l #
        fst (write_lines fmt g ls
          (if py_in ''G1'' l then snd (rewrite_parts fmt g (py_split (py_strip l)) i []) else i) []),
      snd (write_lines fmt g ls
          (if py_in ''G1'' l then snd (rewrite_parts fmt g (py_split (py_strip l)) i []) else i) []))"
proof (cases "py_in ''G1'' l")
  case False
  then show ?thesis using write_lines_acc [of fmt g ls i "[l]"] by (simp add: chunk_def)
next
  case True
  obtain nl i' where r: "rewrite_parts fmt g (py_split (py_strip l)) i [] = (nl, i')"
    by (cases "rewrite_parts fmt g (py_split (py_strip l)) i []")
  show ?thesis
    using True r write_lines_acc [of fmt g ls i' "[py_join '' '' nl @ [NL]]"]
    by (simp add: chunk_def)
qed

lemma length_write_lines:
  "length (fst (write_lines fmt g ls i [])) = length ls"
  by (induction ls arbitrary: i) (simp_all add: write_lines_Cons del: write_lines.simps(2))

lemma snd_write_lines:
  "i \<le> length g \<Longrightarrow>
   snd (write_lines fmt g ls i []) = min (i + sum_list (map dep_parts ls)) (length g)"
proof (induction ls arbitrary: i)
  case Nil
  then show ?case by simp
next
  case (Cons l ls)
  let ?i' = "if py_in ''G1'' l then snd (rewrite_parts fmt g (py_split (py_strip l)) i []) else i"
  have i': "?i' = min (i + dep_parts l) (length g)"
    using Cons.prems by (simp add: snd_rewrite_parts dep_parts_def)
  then have "?i' \<le> length g" by simp
  from Cons.IH [OF this] show ?case
    unfolding write_lines_Cons snd_conv i' by (simp add: min_def)
qed

lemma write_lines_append:
  "write_lines fmt g (xs @ ys) i [] =
     (fst (write_lines fmt g xs i []) @
        fst (write_lines fmt g ys (snd (write_lines fmt g xs i [])) []),
      snd (write_lines fmt g ys (snd (write_lines fmt g xs i [])) []))"
  by (induction xs arbitrary: i) (simp_all add: write_lines_Cons del: write_lines.simps(2))

lemma nth_write_lines:
  "n < length ls \<Longrightarrow>
   fst (write_lines fmt g ls i []) ! n =
     chunk fmt g (snd (write_lines fmt g (take n ls) i [])) (ls ! n)"
proof (induction ls arbitrary: i n)
  case Nil
  then show ?case by simp
next
  case (Cons l ls)
  show ?case
  proof (cases n)
    case 0
    then show ?thesis by (simp add: write_lines_Cons del: write_lines.simps(2))
  next
    case (Suc m)
    with Cons.prems have "m < length ls" by simp
    from Cons.IH [OF this] show ?thesis using Suc
      by (simp add: write_lines_Cons del: write_lines.simps(2))
  qed
qed

section \<open>Lines of text\<close>

lemma split_acc_parts:
  "\<forall>c \<in> set cur. \<not> isspace c \<Longrightarrow> t \<in> set (split_acc s cur) \<Longrightarrow>
   t \<noteq> [] \<and> (\<forall>c \<in> set t. \<not> isspace c)"
proof (induction s arbitrary: cur)
  case Nil
  then show ?case by (cases "cur = []") simp_all
next
  case (Cons c cs)
  show ?case
  proof (cases "isspace c")
    case True
    with Cons.prems(2) have "(t = cur \<and> cur \<noteq> []) \<or> t \<in> set (split_acc cs [])"
      by (cases "cur = []") simp_all
    then show ?thesis
    proof
      assume "t = cur \<and> cur \<noteq> []"
      then show ?thesis using Cons.prems(1) by simp
    next
      assume "t \<in> set (split_acc cs [])"
      then show ?thesis using Cons.IH [of "[]"] by simp
    qed
  next
    case False
    with Cons.prems(2) have "t \<in> set (split_acc cs (cur @ [c]))" by simp
    moreover have "\<forall>d \<in> set (cur @ [c]). \<not> isspace d" using False Cons.prems(1) by simp
    ultimately show ?thesis using Cons.IH by blast
  qed
qed

lemma py_split_parts:
  "t \<in> set (py_split s) \<Longrightarrow> t \<noteq> [] \<and> (\<forall>c \<in> set t. \<not> isspace c)"
  unfolding py_split_def using split_acc_parts [of "[]" t s] by simp

lemma py_split_no_NL: "t \<in> set (py_split s) \<Longrightarrow> NL \<notin> set t"
  using py_split_parts [of t s] by (auto simp: isspace_def)

lemma split_acc_nonempty:
  "cur \<noteq> [] \<or> (\<exists>c \<in> set s. \<not> isspace c) \<Longrightarrow> split_acc s cur \<noteq> []"
  by (induction s cur rule: split_acc.induct) auto

lemma dropWhile_keeps: "c \<in> set s \<Longrightarrow> \<not> P c \<Longrightarrow> c \<in> set (dropWhile P s)"
  by (induction s) auto

lemma py_strip_keeps: "c \<in> set s \<Longrightarrow> \<not> isspace c \<Longrightarrow> c \<in> set (py_strip s)"
  unfolding py_strip_def by (simp add: dropWhile_keeps)

lemma startswith_hd: "startswith s (p # ps) \<Longrightarrow> p \<in> set s"
  by (cases s) auto

lemma py_in_member: "py_in (p # ps) s \<Longrightarrow> p \<in> set s"
  by (induction s) (auto dest: startswith_hd)

lemma tagged_has_parts: "py_in ''G1'' l \<Longrightarrow> py_split (py_strip l) \<noteq> []"
proof -
  assume "py_in ''G1'' l"
  then have "CHR ''G'' \<in> set l" by (rule py_in_member)
  then have "CHR ''G'' \<in> set (py_strip l)" by (rule py_strip_keeps) (simp add: isspace_def)
  moreover have "\<not> isspace (CHR ''G'')" by (simp add: isspace_def)
  ultimately show ?thesis unfolding py_split_def by (intro split_acc_nonempty) blast
qed

lemma set_py_join: "set (py_join sep ps) \<subseteq> set sep \<union> \<Union> (set ` set ps)"
  by (induction sep ps rule: py_join.induct) auto

lemma py_join_nonempty: "ps \<noteq> [] \<Longrightarrow> \<forall>p \<in> set ps. p \<noteq> [] \<Longrightarrow> py_join sep ps \<noteq> []"
  by (induction sep ps rule: py_join.induct) auto

lemma file_lines_complete:
  "NL \<notin> set body \<Longrightarrow> file_lines (body @ NL # rest) = (body @ [NL]) # file_lines rest"
  by (induction body) auto

lemma file_lines_partial: "l \<noteq> [] \<Longrightarrow> NL \<notin> set l \<Longrightarrow> file_lines l = [l]"
proof (induction l)
  case Nil
  then show ?case by simp
next
  case (Cons c cs)
  then show ?case by (cases cs) auto
qed

lemma file_lines_one: "l \<noteq> [] \<Longrightarrow> NL \<notin> set (butlast l) \<Longrightarrow> file_lines l = [l]"
proof (cases "last l = NL")
  case True
  assume "l \<noteq> []" "NL \<notin> set (butlast l)"
  with True have "l = butlast l @ NL # []" by (metis append_butlast_last_id)
  then show ?thesis
    using file_lines_complete [of "butlast l" "[]"] \<open>NL \<notin> set (butlast l)\<close> by simp
next
  case False
  assume "l \<noteq> []" "NL \<notin> set (butlast l)"
  with False have "NL \<notin> set l" by (metis append_butlast_last_id in_set_butlast_appendI
        insert_iff list.set(2) set_append Un_iff empty_set empty_iff)
  with \<open>l \<noteq> []\<close> show ?thesis by (rule file_lines_partial)
qed

lemma file_lines_concat: "well_lines ls \<Longrightarrow> file_lines (concat ls) = ls"
proof (induction ls rule: well_lines.induct)
  case 1
  then show ?case by simp
next
  case (2 l)
  then show ?case by (simp add: file_lines_one)
next
  case (3 l m ls)
  then have l: "l = butlast l @ [NL]" by (metis append_butlast_last_id well_lines.simps(3))
  have "file_lines (concat (l # m # ls)) = file_lines (butlast l @ NL # concat (m # ls))"
    by (subst l) simp
  also have "\<dots> = (butlast l @ [NL]) # file_lines (concat (m # ls))"
    using 3 by (intro file_lines_complete) simp
  finally show ?case using 3 l by simp
qed

lemma well_lines_file_lines: "well_lines (file_lines s)"
proof (induction s)
  case Nil
  then show ?case by simp
next
  case (Cons c cs)
  show ?case
  proof (cases "c = NL")
    case True
    then show ?thesis using Cons by (cases "file_lines cs") auto
  next
    case False
    show ?thesis
    proof (cases "file_lines cs")
      case Nil
      then show ?thesis using False by simp
    next
      case (Cons l ls)
      then show ?thesis using False Cons.IH
        by (cases ls) (auto simp: butlast_def split: if_splits)
    qed
  qed
qed

lemma concat_file_lines: "concat (file_lines s) = s"
  by (induction s) (auto split: list.splits)

section \<open>What the rewriter writes\<close>

lemma emitted_beyond: "length g \<le> q \<Longrightarrow> emitted fmt g q part = part"
  by (simp add: emitted_def)

lemma emitted_min:
  "emitted fmt g (min a (length g) + b) part = emitted fmt g (a + b) part"
  by (cases "a \<le> length g") (simp_all add: emitted_def min_def)

lemma emitted_no_NL:
  "\<forall>v. NL \<notin> set (fmt v) \<Longrightarrow> NL \<notin> set part \<Longrightarrow> NL \<notin> set (emitted fmt g q part)"
  by (simp add: emitted_def)

lemma rewrite_parts_map:
  assumes "i \<le> length g"
  shows "fst (rewrite_parts fmt g parts i []) =
     map (\<lambda>j. emitted fmt g (i + dep_count (take j parts)) (parts ! j)) [0..<length parts]"
  by (rule nth_equalityI) (simp_all add: length_rewrite_parts nth_rewrite_parts assms)

lemma rewrite_parts_beyond:
  "length g \<le> i \<Longrightarrow> rewrite_parts fmt g parts i acc = (acc @ parts, i)"
  by (induction parts arbitrary: acc) simp_all

lemma chunk_beyond:
  "length g \<le> i \<Longrightarrow>
   chunk fmt g i l = (if py_in ''G1'' l then py_join '' '' (py_split (py_strip l)) @ [NL] else l)"
  by (simp add: chunk_def rewrite_parts_beyond)

lemma write_lines_beyond:
  "length g \<le> i \<Longrightarrow>
   write_lines fmt g ls i [] =
     (map (\<lambda>l. if py_in ''G1'' l then py_join '' '' (py_split (py_strip l)) @ [NL] else l) ls, i)"
  by (induction ls)
     (simp_all add: write_lines_Cons chunk_beyond rewrite_parts_beyond del: write_lines.simps(2))

lemma dep_count_take_less:
  assumes "j < length parts" and "startswith (parts ! j) ''E''"
  shows "dep_count (take j parts) < dep_count parts"
proof -
  have "parts = take j parts @ parts ! j # drop (Suc j) parts"
    using assms(1) by (rule id_take_nth_drop)
  then have "dep_count parts =
      dep_count (take j parts) + dep_count (parts ! j # drop (Suc j) parts)"
    unfolding dep_count_def by (metis filter_append length_append)
  then show ?thesis using assms(2) by (simp add: dep_count_def)
qed

lemma rewritten_no_NL:
  assumes "\<forall>v. NL \<notin> set (fmt v)" and "\<forall>p \<in> set parts. NL \<notin> set p"
  shows "\<forall>p \<in> set (fst (rewrite_parts fmt g parts i [])). NL \<notin> set p"
  using assms(2)
proof (induction parts arbitrary: i)
  case Nil
  then show ?case by simp
next
  case (Cons p ps)
  then show ?case
    using assms(1) by (simp add: rewrite_parts_Cons emitted_no_NL del: rewrite_parts.simps(2))
qed

lemma chunk_tagged_shape:
  assumes "\<forall>v. NL \<notin> set (fmt v)" and "py_in ''G1'' l"
  shows "\<exists>body. chunk fmt g i l = body @ [NL] \<and> NL \<notin> set body"
proof -
  let ?new = "fst (rewrite_parts fmt g (py_split (py_strip l)) i [])"
  have "\<forall>p \<in> set (py_split (py_strip l)). NL \<notin> set p"
    using py_split_no_NL by blast
  with assms(1) have "\<forall>p \<in> set ?new. NL \<notin> set p" by (rule rewritten_no_NL)
  moreover have "NL \<notin> set '' ''" by simp
  ultimately have "NL \<notin> set (py_join '' '' ?new)"
    using set_py_join [of "'' ''" ?new] by blast
  then show ?thesis using assms(2) by (simp add: chunk_def)
qed

lemma chunk_ok:
  assumes "\<forall>v. NL \<notin> set (fmt v)" and "l \<noteq> []" and "NL \<notin> set (butlast l)"
  shows "chunk fmt g i l \<noteq> [] \<and> NL \<notin> set (butlast (chunk fmt g i l)) \<and>
         (last l = NL \<longrightarrow> last (chunk fmt g i l) = NL)"
proof (cases "py_in ''G1'' l")
  case False
  then show ?thesis using assms by (simp add: chunk_def)
next
  case True
  from chunk_tagged_shape [OF assms(1) True] obtain body where
    "chunk fmt g i l = body @ [NL]" "NL \<notin> set body" by blast
  then show ?thesis by simp
qed

lemma well_lines_written:
  assumes "\<forall>v. NL \<notin> set (fmt v)"
  shows "well_lines ls \<Longrightarrow> well_lines (fst (write_lines fmt g ls i []))"
proof (induction ls arbitrary: i rule: well_lines.induct)
  case 1
  then show ?case by simp
next
  case (2 l)
  then show ?case using chunk_ok [OF assms, of l g i]
    by (simp add: write_lines_Cons del: write_lines.simps(2))
next
  case (3 l m ls)
  let ?i' = "if py_in ''G1'' l then snd (rewrite_parts fmt g (py_split (py_strip l)) i []) else i"
  let ?i'' = "if py_in ''G1'' m then snd (rewrite_parts fmt g (py_split (py_strip m)) ?i' []) else ?i'"
  from 3 have wl: "well_lines (fst (write_lines fmt g (m # ls) ?i' []))" by simp
  have ok: "chunk fmt g i l \<noteq> [] \<and> NL \<notin> set (butlast (chunk fmt g i l)) \<and>
            last (chunk fmt g i l) = NL"
    using chunk_ok [OF assms, of l g i] 3(2) by simp
  have "fst (write_lines fmt g (l # m # ls) i []) =
        chunk fmt g i l # chunk fmt g ?i' m # fst (write_lines fmt g ls ?i'' [])"
    by (simp add: write_lines_Cons del: write_lines.simps(2))
  moreover have "fst (write_lines fmt g (m # ls) ?i' []) =
        chunk fmt g ?i' m # fst (write_lines fmt g ls ?i'' [])"
    by (simp add: write_lines_Cons del: write_lines.simps(2))
  ultimately show ?case using wl ok by simp
qed

lemma file_lines_write_gcode:
  assumes "\<forall>v. NL \<notin> set (fmt v)"
  shows "file_lines (write_gcode fmt original g) =
         fst (write_lines fmt g (file_lines original) 0 [])"
  unfolding write_gcode_def
  by (intro file_lines_concat well_lines_written [OF assms] well_lines_file_lines)

lemma chunk_emitted:
  assumes "i \<le> length g"
  shows "chunk fmt g i l =
     (if py_in ''G1'' l
      then py_join '' ''
             (map (\<lambda>j. emitted fmt g (i + dep_count (take j (py_split (py_strip l))))
                          (py_split (py_strip l) ! j))
                [0..<length (py_split (py_strip l))]) @ [NL]
      else l)"
  by (simp add: chunk_def rewrite_parts_map [OF assms])

lemma nat_digits_chars: "set (nat_digits n) \<subseteq> set ''0123456789''"
proof (induction n rule: nat_digits.induct)
  case (1 n)
  show ?case
  proof (cases "n < 10")
    case True
    then have "''0123456789'' ! n \<in> set ''0123456789''" by (intro nth_mem) simp
    with True show ?thesis by (subst nat_digits.simps) simp
  next
    case False
    have "''0123456789'' ! (n mod 10) \<in> set ''0123456789''" by (intro nth_mem) simp
    with False 1 show ?thesis by (subst nat_digits.simps) simp
  qed
qed

lemma int_fmt_no_NL: "\<forall>v. NL \<notin> set (int_fmt v)"
proof
  fix v
  have "NL \<notin> set (nat_digits (nat \<bar>v\<bar>))" using nat_digits_chars [of "nat \<bar>v\<bar>"] by auto
  then show "NL \<notin> set (int_fmt v)" by (simp add: int_fmt_def)
qed

text \<open>
  Claim C1, amended. The output has as many lines as the original. A line without
  \<^verbatim>\<open>G1\<close> is the same string in the output. A line with \<^verbatim>\<open>G1\<close> is written as its
  parts, joined by single spaces and ended by a newline, whatever whitespace the original
  had; a part without the marker is unchanged, and the part with the marker that has
  \<open>q\<close> such parts before it in the file is \<^verbatim>\<open>E\<close> and the formatted deposition of row
  \<open>q\<close>, or unchanged when there is no row \<open>q\<close>. The format is assumed to write no
  newline.
\<close>

theorem write_gcode_lines:
  assumes "\<forall>v. NL \<notin> set (fmt v)"
  shows "length (file_lines (write_gcode fmt original g)) = length (file_lines original) \<and>
    (\<forall>n < length (file_lines original).
       let line = file_lines original ! n;
           parts = py_split (py_strip line);
           q = sum_list (map dep_parts (take n (file_lines original)))
       in file_lines (write_gcode fmt original g) ! n =
            (if py_in ''G1'' line
             then py_join '' ''
                    (map (\<lambda>j. emitted fmt g (q + dep_count (take j parts)) (parts ! j))
                       [0..<length parts]) @ [NL]
             else line))"
proof -
  let ?ls = "file_lines original"
  have fl: "file_lines (write_gcode fmt original g) = fst (write_lines fmt g ?ls 0 [])"
    by (rule file_lines_write_gcode [OF assms])
  have len: "length (file_lines (write_gcode fmt original g)) = length ?ls"
    by (simp add: fl length_write_lines)
  have "file_lines (write_gcode fmt original g) ! n =
          (if py_in ''G1'' (?ls ! n)
           then py_join '' ''
                  (map (\<lambda>j. emitted fmt g
                               (sum_list (map dep_parts (take n ?ls)) +
                                dep_count (take j (py_split (py_strip (?ls ! n)))))
                               (py_split (py_strip (?ls ! n)) ! j))
                     [0..<length (py_split (py_strip (?ls ! n)))]) @ [NL]
           else ?ls ! n)" if n: "n < length ?ls" for n
  proof -
    let ?c = "snd (write_lines fmt g (take n ?ls) 0 [])"
    have c: "?c = min (sum_list (map dep_parts (take n ?ls))) (length g)"
      using snd_write_lines [of 0 g fmt "take n ?ls"] by simp
    then have "?c \<le> length g" by simp
    from chunk_emitted [OF this, of fmt "?ls ! n"] show ?thesis
      unfolding fl nth_write_lines [OF n] c emitted_min .
  qed
  with len show ?thesis by (simp add: Let_def)
qed

theorem write_gcode_lines_witness:
  "(\<forall>v. NL \<notin> set (int_fmt v)) \<and>
   length (file_lines (write_gcode int_fmt
       (''G1 X0 Y0 E1'' @ [NL] @ ''M104 S200'' @ [NL] @ ''G1 X10 Y10 E7'' @ [NL])
       [(0, 0, 2)])) = 3 \<and>
   file_lines (write_gcode int_fmt
       (''G1 X0 Y0 E1'' @ [NL] @ ''M104 S200'' @ [NL] @ ''G1 X10 Y10 E7'' @ [NL])
       [(0, 0, 2)]) =
     [''G1 X0 Y0 E2.00000'' @ [NL], ''M104 S200'' @ [NL], ''G1 X10 Y10 E7'' @ [NL]]"
proof -
  let ?t = "''G1 X0 Y0 E1'' @ [NL] @ ''M104 S200'' @ [NL] @ ''G1 X10 Y10 E7'' @ [NL]"
  have len: "length (file_lines (write_gcode int_fmt ?t [(0, 0, 2)])) = length (file_lines ?t)"
    using write_gcode_lines [OF int_fmt_no_NL, of ?t "[(0, 0, 2)]"] by (rule conjunct1)
  have run: "write_gcode int_fmt ?t [(0, 0, 2)] =
      ''G1 X0 Y0 E2.00000'' @ [NL] @ ''M104 S200'' @ [NL] @ ''G1 X10 Y10 E7'' @ [NL]"
    by (simp add: write_gcode_def py_split_def py_strip_def isspace_def int_fmt_def
        nat_digits.simps)
  have three: "length (file_lines ?t) = 3" by simp
  have l3: "length (file_lines (write_gcode int_fmt ?t [(0, 0, 2)])) = 3"
    by (simp only: len three)
  have out: "file_lines (write_gcode int_fmt ?t [(0, 0, 2)]) =
      [''G1 X0 Y0 E2.00000'' @ [NL], ''M104 S200'' @ [NL], ''G1 X10 Y10 E7'' @ [NL]]"
    by (simp add: write_gcode_def py_split_def py_strip_def isspace_def int_fmt_def
        nat_digits.simps)
  from int_fmt_no_NL l3 out show ?thesis by blast
qed

text \<open>
  The claim as stated fails where a line with \<^verbatim>\<open>G1\<close> has other whitespace than single
  spaces between its parts: the line below has no part with the marker, and is written
  with one space where it had two.
\<close>

theorem write_gcode_whitespace_counterexample:
  "py_in ''G1'' (''G1  X1 Y2'' @ [NL]) \<and>
   dep_parts (''G1  X1 Y2'' @ [NL]) = 0 \<and>
   write_gcode int_fmt (''G1  X1 Y2'' @ [NL]) [(1, 2, 3)] = ''G1 X1 Y2'' @ [NL] \<and>
   write_gcode int_fmt (''G1  X1 Y2'' @ [NL]) [(1, 2, 3)] \<noteq> ''G1  X1 Y2'' @ [NL]"
  by (simp add: write_gcode_def dep_parts_def dep_count_def py_split_def py_strip_def
      isspace_def)

text \<open>
  Claim C6. Once the lines read so far bear at least as many parts with the marker as
  there are rows, the cursor stands at the end of the rows and stays there: every later
  line with \<^verbatim>\<open>G1\<close> is written with all its parts as they are, every other line is
  copied, and the rewriter returns with a string written for every line.
\<close>

theorem write_gcode_exhausted:
  assumes "file_lines original = pre @ post"
    and "length g \<le> sum_list (map dep_parts pre)"
  shows "write_gcode fmt original g =
      concat (fst (write_lines fmt g pre 0 [])) @
      concat (map (\<lambda>l. if py_in ''G1'' l then py_join '' '' (py_split (py_strip l)) @ [NL]
                        else l) post) \<and>
    snd (write_lines fmt g pre 0 []) = length g \<and>
    snd (write_lines fmt g (file_lines original) 0 []) = length g \<and>
    length (fst (write_lines fmt g (file_lines original) 0 [])) = length (file_lines original)"
proof -
  have c: "snd (write_lines fmt g pre 0 []) = length g"
    using snd_write_lines [of 0 g fmt pre] assms(2) by simp
  then have "length g \<le> snd (write_lines fmt g pre 0 [])" by simp
  note b = write_lines_beyond [OF this, of fmt post]
  show ?thesis
    unfolding write_gcode_def assms(1) write_lines_append [of fmt g pre post 0] b
    using c by (simp add: length_write_lines)
qed

theorem write_gcode_exhausted_witness:
  "write_gcode int_fmt
     (''G1 X1 Y1 E1'' @ [NL] @ ''G1 X2 Y2 E2'' @ [NL] @ ''G1 X3 Y3 E3'' @ [NL]) [(1, 1, 4)] =
     ''G1 X1 Y1 E4.00000'' @ [NL] @ ''G1 X2 Y2 E2'' @ [NL] @ ''G1 X3 Y3 E3'' @ [NL] \<and>
   snd (write_lines int_fmt [(1, 1, 4)]
     (file_lines (''G1 X1 Y1 E1'' @ [NL] @ ''G1 X2 Y2 E2'' @ [NL] @ ''G1 X3 Y3 E3'' @ [NL]))
     0 []) = 1"
proof -
  let ?t = "''G1 X1 Y1 E1'' @ [NL] @ ''G1 X2 Y2 E2'' @ [NL] @ ''G1 X3 Y3 E3'' @ [NL]"
  have h1: "file_lines ?t =
      [''G1 X1 Y1 E1'' @ [NL]] @ [''G1 X2 Y2 E2'' @ [NL], ''G1 X3 Y3 E3'' @ [NL]]"
    by simp
  have h2: "length [(1, 1, 4 :: int)] \<le> sum_list (map dep_parts [''G1 X1 Y1 E1'' @ [NL]])"
    by (simp add: dep_parts_def dep_count_def py_split_def py_strip_def isspace_def)
  show ?thesis
    using write_gcode_exhausted [OF h1 h2, of int_fmt]
    by (simp add: py_split_def py_strip_def isspace_def int_fmt_def nat_digits.simps)
qed

text \<open>
  Claim C10. Let \<open>c\<close> be the cursor before line \<open>n\<close> and \<open>c'\<close> the cursor after it. The
  cursor does not decrease and does not pass the number of rows. A line without
  \<^verbatim>\<open>G1\<close> leaves it; a line with \<^verbatim>\<open>G1\<close> and \<open>k\<close> parts that start with \<^verbatim>\<open>E\<close> moves it
  by \<open>k\<close>, as far as the rows go: with no such part it stays, and while \<open>k\<close> rows remain
  each such part is replaced by the formatted deposition of the next row and \<open>c' = c + k\<close>.
\<close>

lemma write_lines_cursor_aux:
  assumes "n < length ls"
  shows "snd (write_lines fmt g (take n ls) 0 []) \<le> snd (write_lines fmt g (take (Suc n) ls) 0 []) \<and>
    snd (write_lines fmt g (take (Suc n) ls) 0 []) \<le> length g \<and>
    snd (write_lines fmt g (take (Suc n) ls) 0 []) =
      (if py_in ''G1'' (ls ! n)
       then min (snd (write_lines fmt g (take n ls) 0 []) +
                 dep_count (py_split (py_strip (ls ! n)))) (length g)
       else snd (write_lines fmt g (take n ls) 0 [])) \<and>
    (py_in ''G1'' (ls ! n) \<and>
     snd (write_lines fmt g (take n ls) 0 []) + dep_count (py_split (py_strip (ls ! n)))
       \<le> length g \<longrightarrow>
       fst (write_lines fmt g ls 0 []) ! n =
         py_join '' ''
           (map (\<lambda>j. if startswith (py_split (py_strip (ls ! n)) ! j) ''E''
                      then ''E'' @ fmt (col2 (g ! (snd (write_lines fmt g (take n ls) 0 []) +
                             dep_count (take j (py_split (py_strip (ls ! n)))))))
                      else py_split (py_strip (ls ! n)) ! j)
              [0..<length (py_split (py_strip (ls ! n)))]) @ [NL])"
proof -
  let ?c = "snd (write_lines fmt g (take n ls) 0 [])"
  let ?c' = "snd (write_lines fmt g (take (Suc n) ls) 0 [])"
  let ?parts = "py_split (py_strip (ls ! n))"
  have "?c = min (sum_list (map dep_parts (take n ls))) (length g)"
    using snd_write_lines [of 0 g fmt "take n ls"] by simp
  then have cle: "?c \<le> length g" by simp
  have "take (Suc n) ls = take n ls @ [ls ! n]"
    using assms by (rule take_Suc_conv_app_nth)
  then have "?c' = snd (write_lines fmt g [ls ! n] ?c [])"
    by (simp add: write_lines_append del: write_lines.simps(2))
  then have c': "?c' = (if py_in ''G1'' (ls ! n) then min (?c + dep_count ?parts) (length g) else ?c)"
    using cle by (simp add: write_lines_Cons snd_rewrite_parts del: write_lines.simps(2))
  have written: "fst (write_lines fmt g ls 0 []) ! n =
      py_join '' ''
        (map (\<lambda>j. if startswith (?parts ! j) ''E''
                   then ''E'' @ fmt (col2 (g ! (?c + dep_count (take j ?parts))))
                   else ?parts ! j)
           [0..<length ?parts]) @ [NL]"
    if tagged: "py_in ''G1'' (ls ! n)" and room: "?c + dep_count ?parts \<le> length g"
  proof -
    have one: "emitted fmt g (?c + dep_count (take j ?parts)) (?parts ! j) =
          (if startswith (?parts ! j) ''E''
           then ''E'' @ fmt (col2 (g ! (?c + dep_count (take j ?parts))))
           else ?parts ! j)" if "j < length ?parts" for j
    proof (cases "startswith (?parts ! j) ''E''")
      case True
      from dep_count_take_less [OF that True] room
      have "?c + dep_count (take j ?parts) < length g" by simp
      with True show ?thesis by (simp add: emitted_def)
    next
      case False
      then show ?thesis by (simp add: emitted_def)
    qed
    have eq: "map (\<lambda>j. emitted fmt g (?c + dep_count (take j ?parts)) (?parts ! j))
                 [0..<length ?parts] =
               map (\<lambda>j. if startswith (?parts ! j) ''E''
                         then ''E'' @ fmt (col2 (g ! (?c + dep_count (take j ?parts))))
                         else ?parts ! j)
                 [0..<length ?parts]"
      by (rule map_cong) (simp_all add: one)
    have "fst (write_lines fmt g ls 0 []) ! n = chunk fmt g ?c (ls ! n)"
      by (rule nth_write_lines [OF assms])
    also have "\<dots> = py_join '' ''
        (map (\<lambda>j. emitted fmt g (?c + dep_count (take j ?parts)) (?parts ! j))
           [0..<length ?parts]) @ [NL]"
      using chunk_emitted [OF cle, of fmt "ls ! n"] tagged by simp
    finally show ?thesis by (simp only: eq)
  qed
  have mono: "?c \<le> ?c'" using c' cle by (simp add: min_def)
  have bound: "?c' \<le> length g" using c' cle by (simp add: min_def)
  from mono bound c' written show ?thesis by blast
qed

theorem write_lines_cursor:
  assumes "n < length ls"
    and "c = snd (write_lines fmt g (take n ls) 0 [])"
    and "c' = snd (write_lines fmt g (take (Suc n) ls) 0 [])"
    and "parts = py_split (py_strip (ls ! n))"
  shows "c \<le> c' \<and> c' \<le> length g \<and>
    (\<not> py_in ''G1'' (ls ! n) \<longrightarrow> c' = c) \<and>
    (py_in ''G1'' (ls ! n) \<longrightarrow> c' = min (c + dep_count parts) (length g)) \<and>
    (py_in ''G1'' (ls ! n) \<and> dep_count parts = 0 \<longrightarrow> c' = c) \<and>
    (py_in ''G1'' (ls ! n) \<and> c + dep_count parts \<le> length g \<longrightarrow>
       c' = c + dep_count parts \<and>
       fst (write_lines fmt g ls 0 []) ! n =
         py_join '' ''
           (map (\<lambda>j. if startswith (parts ! j) ''E''
                      then ''E'' @ fmt (col2 (g ! (c + dep_count (take j parts))))
                      else parts ! j)
              [0..<length parts]) @ [NL])"
  using write_lines_cursor_aux [OF assms(1), of fmt g]
  unfolding assms(2) assms(3) assms(4)
  by (auto simp: min_def)

theorem write_lines_cursor_witness:
  "snd (write_lines int_fmt [(1, 1, 4), (2, 2, 5), (3, 3, 6)]
      (take 1 [''G1 X1 Y1 E1'' @ [NL], ''G1 E7 E8'' @ [NL], ''G1 X9'' @ [NL]]) 0 []) = 1 \<and>
   snd (write_lines int_fmt [(1, 1, 4), (2, 2, 5), (3, 3, 6)]
      (take (Suc 1) [''G1 X1 Y1 E1'' @ [NL], ''G1 E7 E8'' @ [NL], ''G1 X9'' @ [NL]]) 0 []) = 3 \<and>
   fst (write_lines int_fmt [(1, 1, 4), (2, 2, 5), (3, 3, 6)]
      [''G1 X1 Y1 E1'' @ [NL], ''G1 E7 E8'' @ [NL], ''G1 X9'' @ [NL]] 0 []) ! 1 =
     ''G1 E5.00000 E6.00000'' @ [NL]"
proof -
  let ?g = "[(1, 1, 4), (2, 2, 5), (3, 3, 6)] :: int row list"
  let ?ls = "[''G1 X1 Y1 E1'' @ [NL], ''G1 E7 E8'' @ [NL], ''G1 X9'' @ [NL]]"
  let ?parts = "[''G1'', ''E7'', ''E8'']"
  have h1: "1 < length ?ls" by simp
  have h2: "snd (write_lines int_fmt ?g (take 1 ?ls) 0 []) = 1"
    by (simp add: py_split_def py_strip_def isspace_def)
  have h3: "snd (write_lines int_fmt ?g (take (Suc 1) ?ls) 0 []) = 3"
    by (simp add: py_split_def py_strip_def isspace_def)
  have h4: "py_split (py_strip (?ls ! 1)) = ?parts"
    by (simp add: py_split_def py_strip_def isspace_def)
  have tagged: "py_in ''G1'' (?ls ! 1)" by simp
  have room: "1 + dep_count ?parts \<le> length ?g" by (simp add: dep_count_def)
  note r = write_lines_cursor [OF h1 h2 [symmetric] h3 [symmetric] h4 [symmetric]]
  from r tagged room have
    "fst (write_lines int_fmt ?g ?ls 0 []) ! 1 =
       py_join '' ''
         (map (\<lambda>j. if startswith (?parts ! j) ''E''
                    then ''E'' @ int_fmt (col2 (?g ! (1 + dep_count (take j ?parts))))
                    else ?parts ! j)
            [0..<length ?parts]) @ [NL]"
    by blast
  also have "\<dots> = ''G1 E5.00000 E6.00000'' @ [NL]"
    by (simp add: dep_count_def int_fmt_def nat_digits.simps)
  finally show ?thesis using h2 h3 by blast
qed

text \<open>
  Claim C9 fails on the code. The line \<^verbatim>\<open>G1 E5 F1800\<close> gives no row, having no
  \<^verbatim>\<open>X\<close> and no \<^verbatim>\<open>Y\<close>, but the rewriter spends a row on it: with the whole plane
  selected and the ratio \<^verbatim>\<open>1\<close>, its deposition is written as that of the next line, and
  the next line keeps its text.
\<close>

theorem roundtrip_misaligned:
  "parse_gcode int_float (''G1 E5 F1800'' @ [NL] @ ''G1 X1 Y1 E2'' @ [NL]) = Inr [(1, 1, 2)] \<and>
   main_script int_float int_fmt (''G1 E5 F1800'' @ [NL] @ ''G1 X1 Y1 E2'' @ [NL])
     [Select (0, 0) (9, 9), Click ''1''] =
     Inr (''G1 E2.00000 F1800'' @ [NL] @ ''G1 X1 Y1 E2'' @ [NL])"
  by (simp add: main_script_def parse_gcode_def parse_line_def py_split_def py_strip_def
      isspace_def int_float_def int_fmt_def nat_digits.simps write_gcode_def init_session_def
      on_select_def confirm_selection_def adjust_extrusion_def scale_masked_def region_mask_def
      py_min_def py_max_def)

end
